theory Spec2Isabelle
  imports Main "HOL-Library.Word"
begin

unbundle bit_operations_syntax

section \<open>Strings and POSIX paths\<close>

text \<open>
  Python strings are modelled as \<^typ>\<open>string\<close>, file contents as lists of bytes.
  The functions of \<^verbatim>\<open>os.path\<close> that \<^verbatim>\<open>subsearcher.py\<close> calls are
  modelled after \<^verbatim>\<open>posixpath\<close>: \<^verbatim>\<open>split\<close>, \<^verbatim>\<open>splitext\<close>, \<^verbatim>\<open>join\<close>,
  \<^verbatim>\<open>basename\<close>, \<^verbatim>\<open>normpath\<close> and \<^verbatim>\<open>abspath\<close>.
\<close>

type_synonym byte = "8 word"
type_synonym u32 = "32 word"

abbreviation slash :: char where
  "slash \<equiv> CHR ''/''"

abbreviation dot :: char where
  "dot \<equiv> CHR ''.''"

fun str_join :: "string \<Rightarrow> string list \<Rightarrow> string" where
  "str_join sep [] = []"
| "str_join sep [x] = x"
| "str_join sep (x # y # ys) = x @ sep @ str_join sep (y # ys)"

definition lower_char :: "char \<Rightarrow> char" where
  "lower_char c =
     (if (65::nat) \<le> of_char c \<and> of_char c \<le> (90::nat)
      then char_of (of_char c + (32::nat)) else c)"

definition str_lower :: "string \<Rightarrow> string" where
  "str_lower s = map lower_char s"

definition rfind :: "char \<Rightarrow> string \<Rightarrow> int" where
  "rfind c p =
     (if c \<in> set p
      then int (length p) - 1 - int (length (takeWhile (\<lambda>x. x \<noteq> c) (rev p)))
      else - 1)"

definition rstrip :: "char \<Rightarrow> string \<Rightarrow> string" where
  "rstrip c s = rev (dropWhile (\<lambda>x. x = c) (rev s))"

definition startswith :: "string \<Rightarrow> string \<Rightarrow> bool" where
  "startswith s pre = (take (length pre) s = pre)"

definition endswith :: "string \<Rightarrow> string \<Rightarrow> bool" where
  "endswith s suf = (drop (length s - length suf) s = suf)"

fun split_on :: "char \<Rightarrow> string \<Rightarrow> string list" where
  "split_on c [] = [[]]"
| "split_on c (x # xs) =
     (if x = c then [] # split_on c xs
      else (case split_on c xs of
              [] \<Rightarrow> [[x]]
            | w # ws \<Rightarrow> (x # w) # ws))"

definition path_split :: "string \<Rightarrow> string \<times> string" where
  "path_split p =
     (let i = nat (rfind slash p + 1);
          head = take i p;
          tail = drop i p
      in (if head \<noteq> [] \<and> head \<noteq> replicate (length head) slash
          then rstrip slash head else head,
          tail))"

definition basename :: "string \<Rightarrow> string" where
  "basename p = drop (nat (rfind slash p + 1)) p"

definition splitext :: "string \<Rightarrow> string \<times> string" where
  "splitext p =
     (let sepIndex = rfind slash p;
          dotIndex = rfind dot p
      in if dotIndex > sepIndex \<and>
            list_ex (\<lambda>x. x \<noteq> dot)
              (take (nat (dotIndex - (sepIndex + 1))) (drop (nat (sepIndex + 1)) p))
         then (take (nat dotIndex) p, drop (nat dotIndex) p)
         else (p, []))"

definition path_join :: "string \<Rightarrow> string \<Rightarrow> string" where
  "path_join a b =
     (if startswith b ''/'' then b
      else if a = [] \<or> endswith a ''/'' then a @ b
      else a @ ''/'' @ b)"

fun normpath_comps :: "nat \<Rightarrow> string list \<Rightarrow> string list \<Rightarrow> string list" where
  "normpath_comps initial_slashes [] new_comps = new_comps"
| "normpath_comps initial_slashes (comp' # comps) new_comps =
     (if comp' = [] \<or> comp' = ''.'' then normpath_comps initial_slashes comps new_comps
      else if comp' \<noteq> ''..'' \<or> (initial_slashes = 0 \<and> new_comps = [])
                \<or> (new_comps \<noteq> [] \<and> last new_comps = ''..'')
        then normpath_comps initial_slashes comps (new_comps @ [comp'])
      else if new_comps \<noteq> [] then normpath_comps initial_slashes comps (butlast new_comps)
      else normpath_comps initial_slashes comps new_comps)"

definition normpath :: "string \<Rightarrow> string" where
  "normpath path =
     (if path = [] then ''.''
      else
        (let initial_slashes =
               (if startswith path ''/''
                then (if startswith path ''//'' \<and> \<not> startswith path ''///''
                      then 2 else 1)
                else 0);
             comps = normpath_comps initial_slashes (split_on slash path) [];
             path' = replicate initial_slashes slash @ str_join ''/'' comps
         in if path' = [] then ''.'' else path'))"

definition abspath :: "string \<Rightarrow> string \<Rightarrow> string" where
  "abspath cwd path =
     normpath (if startswith path ''/'' then path else path_join cwd path)"

section \<open>MD5 (\<^verbatim>\<open>hashlib.md5\<close>)\<close>

text \<open>
  \<^verbatim>\<open>hashlib.md5(data).hexdigest()\<close> is the MD5 message digest of RFC 1321,
  rendered as 32 lower-case hexadecimal digits. The model follows the RFC: the
  message is padded to a multiple of 64 bytes, each block is processed by 64 steps
  over four 32-bit words, and the four words are written out little-endian.
\<close>

definition md5_shifts :: "nat list" where
  "md5_shifts =
    [7, 12, 17, 22, 7, 12, 17, 22, 7, 12, 17, 22, 7, 12, 17, 22,
     5, 9, 14, 20, 5, 9, 14, 20, 5, 9, 14, 20, 5, 9, 14, 20,
     4, 11, 16, 23, 4, 11, 16, 23, 4, 11, 16, 23, 4, 11, 16, 23,
     6, 10, 15, 21, 6, 10, 15, 21, 6, 10, 15, 21, 6, 10, 15, 21]"

definition md5_sines :: "u32 list" where
  "md5_sines =
    [0xd76aa478, 0xe8c7b756, 0x242070db, 0xc1bdceee,
     0xf57c0faf, 0x4787c62a, 0xa8304613, 0xfd469501,
     0x698098d8, 0x8b44f7af, 0xffff5bb1, 0x895cd7be,
     0x6b901122, 0xfd987193, 0xa679438e, 0x49b40821,
     0xf61e2562, 0xc040b340, 0x265e5a51, 0xe9b6c7aa,
     0xd62f105d, 0x02441453, 0xd8a1e681, 0xe7d3fbc8,
     0x21e1cde6, 0xc33707d6, 0xf4d50d87, 0x455a14ed,
     0xa9e3e905, 0xfcefa3f8, 0x676f02d9, 0x8d2a4c8a,
     0xfffa3942, 0x8771f681, 0x6d9d6122, 0xfde5380c,
     0xa4beea44, 0x4bdecfa9, 0xf6bb4b60, 0xbebfbc70,
     0x289b7ec6, 0xeaa127fa, 0xd4ef3085, 0x04881d05,
     0xd9d4d039, 0xe6db99e5, 0x1fa27cf8, 0xc4ac5665,
     0xf4292244, 0x432aff97, 0xab9423a7, 0xfc93a039,
     0x655b59c3, 0x8f0ccc92, 0xffeff47d, 0x85845dd1,
     0x6fa87e4f, 0xfe2ce6e0, 0xa3014314, 0x4e0811a1,
     0xf7537e82, 0xbd3af235, 0x2ad7d2bb, 0xeb86d391]"

definition rotl32 :: "u32 \<Rightarrow> nat \<Rightarrow> u32" where
  "rotl32 x n = push_bit n x OR drop_bit (32 - n) x"

fun le_word :: "byte list \<Rightarrow> u32" where
  "le_word [] = 0"
| "le_word (b # bs) = ucast b OR push_bit 8 (le_word bs)"

fun chunks :: "nat \<Rightarrow> 'a list \<Rightarrow> 'a list list" where
  "chunks n [] = []"
| "chunks n (x # xs) =
     (if n = 0 then [] else take n (x # xs) # chunks n (drop n (x # xs)))"

type_synonym md5_state = "u32 \<times> u32 \<times> u32 \<times> u32"

fun md5_step :: "u32 list \<Rightarrow> md5_state \<Rightarrow> nat \<Rightarrow> md5_state" where
  "md5_step m (a, b, c, d) i =
     (let (f, g) =
        (if i < 16 then ((b AND c) OR (NOT b AND d), i)
         else if i < 32 then ((d AND b) OR (NOT d AND c), (5 * i + 1) mod 16)
         else if i < 48 then (b XOR c XOR d, (3 * i + 5) mod 16)
         else (c XOR (b OR NOT d), (7 * i) mod 16))
      in (d, b + rotl32 (f + a + md5_sines ! i + m ! g) (md5_shifts ! i), b, c))"

definition md5_block :: "md5_state \<Rightarrow> byte list \<Rightarrow> md5_state" where
  "md5_block st blk =
     (case st of (a0, b0, c0, d0) \<Rightarrow>
        (case foldl (md5_step (map le_word (chunks 4 blk))) st [0..<64] of
           (a, b, c, d) \<Rightarrow> (a0 + a, b0 + b, c0 + c, d0 + d)))"

definition le_bytes :: "nat \<Rightarrow> nat \<Rightarrow> byte list" where
  "le_bytes k n = map (\<lambda>i. of_nat (n div 256 ^ i)) [0..<k]"

definition md5_pad :: "byte list \<Rightarrow> byte list" where
  "md5_pad msg =
     msg @ [0x80] @ replicate ((55 + 64 - length msg mod 64) mod 64) 0
         @ le_bytes 8 (8 * length msg)"

definition md5_init :: md5_state where
  "md5_init = (0x67452301, 0xefcdab89, 0x98badcfe, 0x10325476)"

definition md5_digest :: "byte list \<Rightarrow> byte list" where
  "md5_digest msg =
     (case foldl md5_block md5_init (chunks 64 (md5_pad msg)) of
        (a, b, c, d) \<Rightarrow> concat (map (\<lambda>w. le_bytes 4 (unat w)) [a, b, c, d]))"

definition hex_digit :: "nat \<Rightarrow> char" where
  "hex_digit n = ''0123456789abcdef'' ! (n mod 16)"

definition hex_byte :: "byte \<Rightarrow> string" where
  "hex_byte b = [hex_digit (unat b div 16), hex_digit (unat b mod 16)]"

definition md5_hexdigest :: "byte list \<Rightarrow> string" where
  "md5_hexdigest msg = concat (map hex_byte (md5_digest msg))"

section \<open>Errors\<close>

text \<open>
  Every exception the module can raise is a value: \<^verbatim>\<open>ValueError\<close> and
  \<^verbatim>\<open>TypeError\<close> from registration, the four exceptions of
  \<^verbatim>\<open>subfinder.exceptions\<close>, and \<^verbatim>\<open>IOError\<close> from \<^verbatim>\<open>open\<close>.
  Each carries its message; \<^verbatim>\<open>IOError\<close> carries the path that could not be opened.
\<close>

datatype error =
    ValueError string
  | TypeError string
  | LanguageError string
  | ExtError string
  | InvalidFileError string
  | SearchingSubinfoError string
  | IOError string

section \<open>The registry of subsearchers\<close>

text \<open>
  A Python class is its name and its base classes; \<^verbatim>\<open>issubclass\<close> walks the bases.
  \<^verbatim>\<open>registered_subsearchers\<close> is a dictionary from names to the registered values.
  The second argument of \<^verbatim>\<open>register_subsearcher\<close> and the default of
  \<^verbatim>\<open>get_subsearcher\<close> are arbitrary Python values.
\<close>

datatype pyclass = PyClass string "pyclass list"

datatype pyval = PyNone | PyObj string | PyType pyclass

fun cls_name :: "pyclass \<Rightarrow> string" where
  "cls_name (PyClass n bases) = n"

fun issubclass :: "pyclass \<Rightarrow> pyclass \<Rightarrow> bool" where
  "issubclass (PyClass n bases) base =
     (PyClass n bases = base \<or> list_ex (\<lambda>b. issubclass b base) bases)"

definition object_cls :: pyclass where
  "object_cls = PyClass ''object'' []"

definition BaseSubSearcher :: pyclass where
  "BaseSubSearcher = PyClass ''BaseSubSearcher'' [object_cls]"

definition ShooterSubSearcher :: pyclass where
  "ShooterSubSearcher = PyClass ''ShooterSubSearcher'' [BaseSubSearcher]"

type_synonym registry = "string \<rightharpoonup> pyval"

definition register_subsearcher :: "registry \<Rightarrow> string \<Rightarrow> pyval \<Rightarrow> error + registry" where
  "register_subsearcher registered_subsearchers name subsearcher_cls =
     (case subsearcher_cls of
        PyType c \<Rightarrow>
          if \<not> issubclass c BaseSubSearcher
          then Inl (ValueError (cls_name c @ '' is not a subclass of BaseSubSearcher''))
          else Inr (registered_subsearchers(name \<mapsto> subsearcher_cls))
      | _ \<Rightarrow> Inl (TypeError ''issubclass() arg 1 must be a class''))"

definition get_subsearcher :: "registry \<Rightarrow> string \<Rightarrow> pyval \<Rightarrow> pyval" where
  "get_subsearcher registered_subsearchers name default' =
     (case registered_subsearchers name of
        Some v \<Rightarrow> v
      | None \<Rightarrow> default')"

definition register :: "registry \<Rightarrow> pyclass \<Rightarrow> string option \<Rightarrow> error + registry" where
  "register registered_subsearchers subsearcher_cls name =
     register_subsearcher registered_subsearchers
       (case name of None \<Rightarrow> cls_name subsearcher_cls | Some n \<Rightarrow> n)
       (PyType subsearcher_cls)"

section \<open>The video hash\<close>

text \<open>
  The file system is a map from absolute paths to file contents. \<^verbatim>\<open>fp.seek(pos, 0)\<close>
  followed by \<^verbatim>\<open>fp.read(4096)\<close> returns the bytes from \<open>pos\<close> on, at most 4096 of
  them. \<^verbatim>\<open>st_size\<close> is the length of the content; sizes and positions are natural
  numbers, and the size check keeps \<^verbatim>\<open>total_size - 8192\<close> from going below zero.
\<close>

type_synonym filesystem = "string \<rightharpoonup> byte list"

definition fp_read :: "byte list \<Rightarrow> nat \<Rightarrow> nat \<Rightarrow> byte list" where
  "fp_read content pos n = take n (drop pos content)"

definition seek_positions :: "nat \<Rightarrow> nat list" where
  "seek_positions total_size =
     [4096, total_size div 3 * 2, total_size div 3, total_size - 8192]"

text \<open>
  The same four offsets as the specification words them:
  \<open>4096\<close>, \<open>floor(2T/3)\<close>, \<open>floor(T/3)\<close>, \<open>T - 8192\<close>.
\<close>

definition spec_seek_positions :: "nat \<Rightarrow> nat list" where
  "spec_seek_positions total_size =
     [4096, (2 * total_size) div 3, total_size div 3, total_size - 8192]"

definition compute_video_hash :: "filesystem \<Rightarrow> string \<Rightarrow> error + string" where
  "compute_video_hash files videofile =
     (case files videofile of
        None \<Rightarrow> Inl (IOError videofile)
      | Some content \<Rightarrow>
          (let total_size = length content
           in if total_size < 8192 + 4096
              then Inl (InvalidFileError
                          (''the video['' @ basename videofile @ ''] is too small''))
              else Inr (str_join '';''
                          (map (\<lambda>pos. md5_hexdigest (fp_read content pos 4096))
                               (seek_positions total_size)))))"

section \<open>Searching subtitles\<close>

text \<open>
  \<^verbatim>\<open>languages\<close> and \<^verbatim>\<open>exts\<close> are \<^verbatim>\<open>None\<close>, one string or a list of strings.
  The decoded response of the service for one language is a list of entries with
  the keys \<^verbatim>\<open>Desc\<close>, \<^verbatim>\<open>Delay\<close> and \<^verbatim>\<open>Files\<close>, each file with the keys
  \<^verbatim>\<open>Ext\<close> and \<^verbatim>\<open>Link\<close>. \<^verbatim>\<open>session.post(...)\<close> followed by \<^verbatim>\<open>res.json()\<close>
  is a function of the requests sent before in this call and of the payload: it
  gives the decoded response, or the text of the exception that was raised. The
  model returns the requests that were sent beside the result of the call.
  \<^verbatim>\<open>str.lower\<close> is modelled on ASCII letters.
\<close>

datatype pyarg = ArgNone | ArgStr string | ArgList "string list"

record file_item =
  Ext :: string
  Link :: string

record subinfo =
  Desc :: string
  Delay :: int
  Files :: "file_item list"

record payload =
  filehash :: string
  pathinfo :: string
  format :: string
  lang :: string

record descriptor =
  link :: string
  language :: string
  subname :: string
  ext :: string

type_synonym transport = "payload list \<Rightarrow> payload \<Rightarrow> string + subinfo list"

definition SUPPORT_LANGUAGES :: "string list" where
  "SUPPORT_LANGUAGES = [''Chn'', ''Eng'']"

definition SUPPORT_EXTS :: "string list" where
  "SUPPORT_EXTS = [''ass'', ''srt'']"

fun check_languages :: "string \<Rightarrow> string list \<Rightarrow> string list \<Rightarrow> error + unit" where
  "check_languages cls support [] = Inr ()"
| "check_languages cls support (l # languages) =
     (if l \<notin> set support
      then Inl (LanguageError
                  (cls @ '' don'' @ [CHR 0x27] @ ''t support '' @ l @ '' language''))
      else check_languages cls support languages)"

fun check_exts :: "string \<Rightarrow> string list \<Rightarrow> string list \<Rightarrow> error + unit" where
  "check_exts cls support [] = Inr ()"
| "check_exts cls support (e # exts) =
     (if e \<notin> set support
      then Inl (ExtError (cls @ '' don'' @ [CHR 0x27] @ ''t support '' @ e @ '' ext''))
      else check_exts cls support exts)"

definition gen_subname :: "string \<Rightarrow> string \<Rightarrow> string \<Rightarrow> string" where
  "gen_subname videofile l e =
     (case path_split videofile of
        (root, base) \<Rightarrow>
          (case splitext base of
             (name, _) \<Rightarrow> path_join root (name @ ''.'' @ l @ ''.'' @ e)))"

text \<open>
  \<^verbatim>\<open>result[language] = res.json()\<close> on a dictionary that keeps insertion order: a key
  that is already present keeps its place and takes the new value.
\<close>

fun dict_set :: "('k \<times> 'v) list \<Rightarrow> 'k \<Rightarrow> 'v \<Rightarrow> ('k \<times> 'v) list" where
  "dict_set [] k v = [(k, v)]"
| "dict_set ((k', v') # kvs) k v =
     (if k' = k then (k, v) # kvs else (k', v') # dict_set kvs k v)"

text \<open>The loop over the requested languages, one request each.\<close>

fun query_loop ::
  "transport \<Rightarrow> payload \<Rightarrow> string list \<Rightarrow> (string \<times> subinfo list) list \<Rightarrow> payload list
     \<Rightarrow> (error + (string \<times> subinfo list) list) \<times> payload list" where
  "query_loop post pl [] result sent = (Inr result, sent)"
| "query_loop post pl (l # languages) result sent =
     (let pl' = pl\<lparr>lang := l\<rparr>
      in case post sent pl' of
           Inl e \<Rightarrow> (Inl (SearchingSubinfoError e), sent @ [pl'])
         | Inr res \<Rightarrow> query_loop post pl' languages (dict_set result l res) (sent @ [pl']))"

text \<open>
  The three nested loops that build \<^verbatim>\<open>subinfos\<close>: over the files of one entry,
  over the entries of one language, over the languages of \<^verbatim>\<open>result\<close>.
\<close>

fun files_loop ::
  "string \<Rightarrow> string list \<Rightarrow> string \<Rightarrow> file_item list \<Rightarrow> descriptor list \<times> string set
     \<Rightarrow> descriptor list \<times> string set" where
  "files_loop videofile exts l [] (subinfos, ext_set) = (subinfos, ext_set)"
| "files_loop videofile exts l (item # files) (subinfos, ext_set) =
     (let ext' = str_lower (Ext item);
          link' = Link item
      in if ext' \<in> set exts \<and> ext' \<notin> ext_set
         then files_loop videofile exts l files
                (subinfos @ [\<lparr>link = link', language = l,
                               subname = gen_subname videofile l ext', ext = ext'\<rparr>],
                 insert ext' ext_set)
         else files_loop videofile exts l files (subinfos, ext_set))"

fun subinfo_loop ::
  "string \<Rightarrow> string list \<Rightarrow> string \<Rightarrow> subinfo list \<Rightarrow> descriptor list \<times> string set
     \<Rightarrow> descriptor list \<times> string set" where
  "subinfo_loop videofile exts l [] acc = acc"
| "subinfo_loop videofile exts l (si # subinfolist) acc =
     subinfo_loop videofile exts l subinfolist
       (files_loop videofile exts l (Files si) acc)"

fun result_loop ::
  "string \<Rightarrow> string list \<Rightarrow> (string \<times> subinfo list) list \<Rightarrow> descriptor list
     \<Rightarrow> descriptor list" where
  "result_loop videofile exts [] subinfos = subinfos"
| "result_loop videofile exts ((l, subinfolist) # result) subinfos =
     result_loop videofile exts result
       (fst (subinfo_loop videofile exts l subinfolist (subinfos, {})))"

definition languages_arg :: "pyarg \<Rightarrow> string list" where
  "languages_arg languages0 =
     (case languages0 of
        ArgNone \<Rightarrow> [hd SUPPORT_LANGUAGES]
      | ArgStr s \<Rightarrow> [s]
      | ArgList ls \<Rightarrow> ls)"

definition exts_arg :: "pyarg \<Rightarrow> string list" where
  "exts_arg exts0 =
     (case exts0 of
        ArgNone \<Rightarrow> SUPPORT_EXTS
      | ArgStr s \<Rightarrow> [s]
      | ArgList es \<Rightarrow> es)"

definition search_subs ::
  "string \<Rightarrow> filesystem \<Rightarrow> transport \<Rightarrow> string \<Rightarrow> pyarg \<Rightarrow> pyarg
     \<Rightarrow> (error + descriptor list) \<times> payload list" where
  "search_subs cwd files post videofile0 languages0 exts0 =
     (let videofile = abspath cwd videofile0;
          languages = languages_arg languages0
      in case check_languages ''ShooterSubSearcher'' SUPPORT_LANGUAGES languages of
           Inl err \<Rightarrow> (Inl err, [])
         | Inr _ \<Rightarrow>
          (let exts = exts_arg exts0
           in case check_exts ''ShooterSubSearcher'' SUPPORT_EXTS exts of
                Inl err \<Rightarrow> (Inl err, [])
              | Inr _ \<Rightarrow>
               (case compute_video_hash files videofile of
                  Inl err \<Rightarrow> (Inl err, [])
                | Inr fh \<Rightarrow>
                   (let pl = \<lparr>filehash = fh, pathinfo = snd (path_split videofile),
                              format = ''json'', lang = []\<rparr>
                    in case query_loop post pl languages [] [] of
                         (Inl err, sent) \<Rightarrow> (Inl err, sent)
                       | (Inr result, sent) \<Rightarrow>
                           (Inr (result_loop videofile exts result []), sent)))))"

section \<open>Validation of the requested languages and formats\<close>

lemma check_languages_ok:
  "set ls \<subseteq> set supp \<Longrightarrow> check_languages cls supp ls = Inr ()"
  by (induction ls) auto

lemma check_languages_bad:
  "list_ex (\<lambda>l. l \<notin> set supp) ls
     \<Longrightarrow> \<exists>msg. check_languages cls supp ls = Inl (LanguageError msg)"
  by (induction ls) auto

lemma check_languages_Inr:
  "check_languages cls supp ls = Inr u \<Longrightarrow> set ls \<subseteq> set supp"
  by (induction ls) (auto split: if_splits)

lemma check_exts_ok:
  "set es \<subseteq> set supp \<Longrightarrow> check_exts cls supp es = Inr ()"
  by (induction es) auto

lemma check_exts_bad:
  "list_ex (\<lambda>e. e \<notin> set supp) es
     \<Longrightarrow> \<exists>msg. check_exts cls supp es = Inl (ExtError msg)"
  by (induction es) auto

lemma check_exts_Inr:
  "check_exts cls supp es = Inr u \<Longrightarrow> set es \<subseteq> set supp"
  by (induction es) (auto split: if_splits)

text \<open>
  C4: whenever the requested languages (after the default and the wrapping of a single
  string) contain a token that is not in \<open>SUPPORT_LANGUAGES\<close>, \<open>search_subs\<close> raises
  \<open>LanguageError\<close> and has sent no request at all; no descriptor is returned.
\<close>

theorem unsupported_language_no_request:
  assumes "list_ex (\<lambda>l. l \<notin> set SUPPORT_LANGUAGES) (languages_arg languages0)"
  shows "\<exists>msg. search_subs cwd files post videofile0 languages0 exts0
            = (Inl (LanguageError msg), [])"
proof -
  from check_languages_bad [OF assms]
  obtain msg where
    "check_languages ''ShooterSubSearcher'' SUPPORT_LANGUAGES (languages_arg languages0)
       = Inl (LanguageError msg)"
    by blast
  then show ?thesis
    by (simp add: search_subs_def Let_def)
qed

theorem unsupported_language_no_request_witness:
  "list_ex (\<lambda>l. l \<notin> set SUPPORT_LANGUAGES) (languages_arg (ArgList [''Eng'', ''Fra'']))
   \<and> (\<exists>msg. search_subs ''/home'' Map.empty (\<lambda>sent pl. Inr []) ''a.mkv''
                (ArgList [''Eng'', ''Fra'']) ArgNone
              = (Inl (LanguageError msg), []))"
proof -
  have h: "list_ex (\<lambda>l. l \<notin> set SUPPORT_LANGUAGES)
             (languages_arg (ArgList [''Eng'', ''Fra'']))"
    by (simp add: languages_arg_def SUPPORT_LANGUAGES_def)
  show ?thesis
    using h unsupported_language_no_request [OF h] by blast
qed

lemma check_languages_first:
  "filter (\<lambda>l. l \<notin> set supp) ls \<noteq> []
     \<Longrightarrow> check_languages cls supp ls
          = Inl (LanguageError (cls @ '' don'' @ [CHR 0x27] @ ''t support ''
                                  @ hd (filter (\<lambda>l. l \<notin> set supp) ls) @ '' language''))"
  by (induction ls) auto

text \<open>
  C10: the languages are checked before the formats. When the requested languages
  contain an unsupported token and the requested formats contain an unsupported token as
  well, \<open>search_subs\<close> raises the \<open>LanguageError\<close> that names the first unsupported
  language, not an \<open>ExtError\<close>.
\<close>

theorem language_error_before_ext_error:
  assumes "filter (\<lambda>l. l \<notin> set SUPPORT_LANGUAGES) (languages_arg languages0) \<noteq> []"
      and "filter (\<lambda>e. e \<notin> set SUPPORT_EXTS) (exts_arg exts0) \<noteq> []"
  shows "fst (search_subs cwd files post videofile0 languages0 exts0)
           = Inl (LanguageError
                    (''ShooterSubSearcher don'' @ [CHR 0x27] @ ''t support ''
                       @ hd (filter (\<lambda>l. l \<notin> set SUPPORT_LANGUAGES)
                               (languages_arg languages0))
                       @ '' language''))"
  using check_languages_first [OF assms(1), of "''ShooterSubSearcher''"]
  by (simp add: search_subs_def Let_def)

theorem language_error_before_ext_error_witness:
  "filter (\<lambda>l. l \<notin> set SUPPORT_LANGUAGES) (languages_arg (ArgList [''Chn'', ''Jpn''])) \<noteq> []
   \<and> filter (\<lambda>e. e \<notin> set SUPPORT_EXTS) (exts_arg (ArgStr ''sub'')) \<noteq> []
   \<and> fst (search_subs ''/home'' Map.empty (\<lambda>sent pl. Inr []) ''a.mkv''
            (ArgList [''Chn'', ''Jpn'']) (ArgStr ''sub''))
       = Inl (LanguageError
                (''ShooterSubSearcher don'' @ [CHR 0x27] @ ''t support Jpn language''))"
proof -
  have h1: "filter (\<lambda>l. l \<notin> set SUPPORT_LANGUAGES)
              (languages_arg (ArgList [''Chn'', ''Jpn''])) \<noteq> []"
    by (simp add: languages_arg_def SUPPORT_LANGUAGES_def)
  have h2: "filter (\<lambda>e. e \<notin> set SUPPORT_EXTS) (exts_arg (ArgStr ''sub'')) \<noteq> []"
    by (simp add: exts_arg_def SUPPORT_EXTS_def)
  have h3: "hd (filter (\<lambda>l. l \<notin> set SUPPORT_LANGUAGES)
              (languages_arg (ArgList [''Chn'', ''Jpn'']))) = ''Jpn''"
    by (simp add: languages_arg_def SUPPORT_LANGUAGES_def)
  show ?thesis
    using h1 h2 language_error_before_ext_error [OF h1 h2, of "''/home''" Map.empty
        "\<lambda>sent pl. Inr []" "''a.mkv''"]
    unfolding h3 by simp
qed

section \<open>The registry\<close>

text \<open>
  C7: registering a subsearcher class \<open>B\<close> under a name that is already bound to a
  class \<open>A\<close> succeeds and replaces the binding: looking the name up afterwards gives
  \<open>B\<close>, whatever the default, and the other names keep their bindings. Looking up a name
  that is not registered gives the caller's default, and \<open>get_subsearcher\<close> has no
  error result.
\<close>

theorem register_overwrites_lookup_falls_back:
  assumes "issubclass B BaseSubSearcher"
      and "reg name = Some (PyType A)"
  shows "(\<exists>reg'. register_subsearcher reg name (PyType B) = Inr reg'
            \<and> get_subsearcher reg' name d = PyType B
            \<and> (\<forall>n. n \<noteq> name \<longrightarrow> get_subsearcher reg' n d = get_subsearcher reg n d))
         \<and> (reg u = None \<longrightarrow> get_subsearcher reg u d = d)"
  using assms
  by (auto simp: register_subsearcher_def get_subsearcher_def split: option.splits)

theorem register_overwrites_lookup_falls_back_witness:
  "issubclass (PyClass ''Other'' [BaseSubSearcher]) BaseSubSearcher
   \<and> [''default'' \<mapsto> PyType ShooterSubSearcher] ''default'' = Some (PyType ShooterSubSearcher)
   \<and> (\<exists>reg'. register_subsearcher [''default'' \<mapsto> PyType ShooterSubSearcher] ''default''
                 (PyType (PyClass ''Other'' [BaseSubSearcher])) = Inr reg'
            \<and> get_subsearcher reg' ''default'' PyNone = PyType (PyClass ''Other'' [BaseSubSearcher]))
   \<and> get_subsearcher [''default'' \<mapsto> PyType ShooterSubSearcher] ''zimuku'' PyNone = PyNone"
proof -
  have h1: "issubclass (PyClass ''Other'' [BaseSubSearcher]) BaseSubSearcher"
    by (simp add: BaseSubSearcher_def)
  have h2: "[''default'' \<mapsto> PyType ShooterSubSearcher] ''default''
              = Some (PyType ShooterSubSearcher)"
    by simp
  have h3: "[''default'' \<mapsto> PyType ShooterSubSearcher] ''zimuku'' = None"
    by simp
  show ?thesis
    using h1 h2 h3
      register_overwrites_lookup_falls_back
        [where B = "PyClass ''Other'' [BaseSubSearcher]"
           and reg = "[''default'' \<mapsto> PyType ShooterSubSearcher]"
           and name = "''default''" and A = ShooterSubSearcher
           and d = PyNone and u = "''zimuku''"]
    by auto
qed

section \<open>The video hash: size guard, windows and determinism\<close>

text \<open>
  C6: the fingerprint depends on the content of the file only. For two files with the
  same bytes, in any two file systems and at any two paths (so also for the same file
  read twice), \<open>compute_video_hash\<close> either returns the same string for both, or fails
  for both with \<open>InvalidFileError\<close>; the path shows in the text of that error only.
\<close>

theorem compute_video_hash_content_only:
  assumes "files1 path1 = Some content"
      and "files2 path2 = Some content"
  shows "(case (compute_video_hash files1 path1, compute_video_hash files2 path2) of
            (Inr h1, Inr h2) \<Rightarrow> h1 = h2
          | (Inl (InvalidFileError m1), Inl (InvalidFileError m2)) \<Rightarrow> True
          | _ \<Rightarrow> False)"
  using assms by (simp add: compute_video_hash_def Let_def)

theorem compute_video_hash_content_only_witness:
  "[''/a/x.mkv'' \<mapsto> replicate 20000 (0::byte)] ''/a/x.mkv'' = Some (replicate 20000 0)
   \<and> [''/b/y.avi'' \<mapsto> replicate 20000 (0::byte)] ''/b/y.avi'' = Some (replicate 20000 0)
   \<and> (case (compute_video_hash [''/a/x.mkv'' \<mapsto> replicate 20000 0] ''/a/x.mkv'',
             compute_video_hash [''/b/y.avi'' \<mapsto> replicate 20000 0] ''/b/y.avi'') of
            (Inr h1, Inr h2) \<Rightarrow> h1 = h2
          | (Inl (InvalidFileError m1), Inl (InvalidFileError m2)) \<Rightarrow> True
          | _ \<Rightarrow> False)"
proof -
  have h1: "[''/a/x.mkv'' \<mapsto> replicate 20000 (0::byte)] ''/a/x.mkv''
              = Some (replicate 20000 0)"
    by simp
  have h2: "[''/b/y.avi'' \<mapsto> replicate 20000 (0::byte)] ''/b/y.avi''
              = Some (replicate 20000 0)"
    by simp
  show ?thesis
    using h1 h2
      compute_video_hash_content_only
        [where ?files1.0 = "[''/a/x.mkv'' \<mapsto> replicate 20000 0]"
           and ?path1.0 = "''/a/x.mkv''"
           and ?files2.0 = "[''/b/y.avi'' \<mapsto> replicate 20000 0]"
           and ?path2.0 = "''/b/y.avi''"
           and content = "replicate 20000 0"]
    by blast
qed

lemma length_le_bytes: "length (le_bytes k n) = k"
  by (simp add: le_bytes_def)

lemma length_md5_digest: "length (md5_digest msg) = 16"
  by (simp add: md5_digest_def length_le_bytes split: prod.splits)

lemma length_hex_bytes: "length (concat (map hex_byte bs)) = 2 * length bs"
  by (induction bs) (simp_all add: hex_byte_def)

lemma hex_digit_is_hex: "hex_digit n \<in> set ''0123456789abcdef''"
  unfolding hex_digit_def by (rule nth_mem) simp

lemma hex_bytes_are_hex: "set (concat (map hex_byte bs)) \<subseteq> set ''0123456789abcdef''"
proof (induction bs)
  case Nil
  show ?case by simp
next
  case (Cons b bs)
  have "set (hex_byte b) \<subseteq> set ''0123456789abcdef''"
    using hex_digit_is_hex [of "unat b div 16"] hex_digit_is_hex [of "unat b mod 16"]
    by (simp add: hex_byte_def)
  with Cons.IH show ?case by simp
qed

lemma length_md5_hexdigest: "length (md5_hexdigest msg) = 32"
  by (simp add: md5_hexdigest_def length_hex_bytes length_md5_digest)

lemma md5_hexdigest_is_hex: "set (md5_hexdigest msg) \<subseteq> set ''0123456789abcdef''"
  unfolding md5_hexdigest_def by (rule hex_bytes_are_hex)

lemma compute_video_hash_small:
  "files videofile = Some content \<Longrightarrow> length content < 12288
     \<Longrightarrow> compute_video_hash files videofile
          = Inl (InvalidFileError (''the video['' @ basename videofile @ ''] is too small''))"
  by (simp add: compute_video_hash_def Let_def)

lemma compute_video_hash_large:
  "files videofile = Some content \<Longrightarrow> 12288 \<le> length content
     \<Longrightarrow> compute_video_hash files videofile
          = Inr (str_join '';''
                   (map (\<lambda>pos. md5_hexdigest (fp_read content pos 4096))
                        (seek_positions (length content))))"
  by (simp add: compute_video_hash_def Let_def)

text \<open>
  C3: for a file of \<open>T\<close> bytes, \<open>compute_video_hash\<close> fails with \<open>InvalidFileError\<close>
  exactly when \<open>T < 12288\<close>. For \<open>T \<ge> 12288\<close> it returns four digests joined by
  \<open>;\<close>, each of 32 hexadecimal digits.
\<close>

theorem compute_video_hash_size_guard:
  assumes "files videofile = Some content"
  shows "((\<exists>msg. compute_video_hash files videofile = Inl (InvalidFileError msg))
            \<longleftrightarrow> length content < 12288)
         \<and> (12288 \<le> length content \<longrightarrow>
              (\<exists>ds. compute_video_hash files videofile = Inr (str_join '';'' ds)
                  \<and> length ds = 4
                  \<and> (\<forall>d \<in> set ds. length d = 32 \<and> set d \<subseteq> set ''0123456789abcdef'')))"
proof (cases "length content < 12288")
  case True
  with assms show ?thesis
    by (simp add: compute_video_hash_small)
next
  case False
  then have large: "12288 \<le> length content" by simp
  let ?ds = "map (\<lambda>pos. md5_hexdigest (fp_read content pos 4096))
               (seek_positions (length content))"
  have "\<exists>ds. compute_video_hash files videofile = Inr (str_join '';'' ds)
            \<and> length ds = 4
            \<and> (\<forall>d \<in> set ds. length d = 32 \<and> set d \<subseteq> set ''0123456789abcdef'')"
  proof (rule exI [of _ ?ds], intro conjI)
    show "compute_video_hash files videofile = Inr (str_join '';'' ?ds)"
      using assms large by (rule compute_video_hash_large)
    show "length ?ds = 4"
      by (simp add: seek_positions_def)
    show "\<forall>d \<in> set ?ds. length d = 32 \<and> set d \<subseteq> set ''0123456789abcdef''"
      using length_md5_hexdigest md5_hexdigest_is_hex by auto
  qed
  moreover have "\<not> (\<exists>msg. compute_video_hash files videofile = Inl (InvalidFileError msg))"
    using assms large by (simp add: compute_video_hash_large)
  ultimately show ?thesis
    using False by blast
qed

theorem compute_video_hash_size_guard_witness:
  "(\<exists>msg. compute_video_hash [''/v/small.mkv'' \<mapsto> replicate 12287 0] ''/v/small.mkv''
            = Inl (InvalidFileError msg))
   \<and> (\<exists>ds. compute_video_hash [''/v/ok.mkv'' \<mapsto> replicate 12288 0] ''/v/ok.mkv''
              = Inr (str_join '';'' ds) \<and> length ds = 4)"
proof -
  have small: "[''/v/small.mkv'' \<mapsto> replicate 12287 (0::byte)] ''/v/small.mkv''
                 = Some (replicate 12287 0)"
    by simp
  have ok: "[''/v/ok.mkv'' \<mapsto> replicate 12288 (0::byte)] ''/v/ok.mkv''
              = Some (replicate 12288 0)"
    by simp
  have "\<exists>msg. compute_video_hash [''/v/small.mkv'' \<mapsto> replicate 12287 0] ''/v/small.mkv''
            = Inl (InvalidFileError msg)"
    using compute_video_hash_size_guard
            [where files = "[''/v/small.mkv'' \<mapsto> replicate 12287 0]"
               and videofile = "''/v/small.mkv''" and content = "replicate 12287 0"]
          small
    by simp
  moreover
  have "\<exists>ds. compute_video_hash [''/v/ok.mkv'' \<mapsto> replicate 12288 0] ''/v/ok.mkv''
              = Inr (str_join '';'' ds) \<and> length ds = 4"
    using compute_video_hash_size_guard
            [where files = "[''/v/ok.mkv'' \<mapsto> replicate 12288 0]"
               and videofile = "''/v/ok.mkv''" and content = "replicate 12288 0"]
          ok
    by auto
  ultimately show ?thesis by blast
qed

lemma seek_positions_agree_iff:
  "seek_positions T = spec_seek_positions T \<longleftrightarrow> T mod 3 \<noteq> 2"
  unfolding seek_positions_def spec_seek_positions_def by simp presburger

lemma fp_read_full:
  "pos + n \<le> length content \<Longrightarrow> length (fp_read content pos n) = n"
  by (simp add: fp_read_def)

lemma seek_positions_in_file:
  assumes "12288 \<le> T" and "pos \<in> set (seek_positions T)"
  shows "pos + 4096 \<le> T"
  using assms unfolding seek_positions_def by auto

text \<open>
  C1, as the code has it: for a file of \<open>T \<ge> 12288\<close> bytes the hash is the MD5
  digests, in hexadecimal, of the four windows of 4096 bytes at the offsets \<open>4096\<close>,
  \<open>2 * floor(T/3)\<close>, \<open>floor(T/3)\<close> and \<open>T - 8192\<close>, joined by \<open>;\<close> in this order.
  Each window lies inside the file. The second offset is twice the third, which is
  \<open>floor(2T/3)\<close> only when \<open>T mod 3 \<noteq> 2\<close>.
\<close>

theorem compute_video_hash_windows:
  assumes "files videofile = Some content"
      and "12288 \<le> length content"
  shows "compute_video_hash files videofile
           = Inr (md5_hexdigest (take 4096 (drop 4096 content)) @ '';''
                  @ md5_hexdigest (take 4096 (drop (2 * (length content div 3)) content)) @ '';''
                  @ md5_hexdigest (take 4096 (drop (length content div 3) content)) @ '';''
                  @ md5_hexdigest (take 4096 (drop (length content - 8192) content)))
         \<and> list_all (\<lambda>pos. length (take 4096 (drop pos content)) = 4096)
              [4096, 2 * (length content div 3), length content div 3, length content - 8192]"
proof
  show "compute_video_hash files videofile
           = Inr (md5_hexdigest (take 4096 (drop 4096 content)) @ '';''
                  @ md5_hexdigest (take 4096 (drop (2 * (length content div 3)) content)) @ '';''
                  @ md5_hexdigest (take 4096 (drop (length content div 3) content)) @ '';''
                  @ md5_hexdigest (take 4096 (drop (length content - 8192) content)))"
    using assms
    by (simp add: compute_video_hash_large seek_positions_def fp_read_def mult.commute)
  show "list_all (\<lambda>pos. length (take 4096 (drop pos content)) = 4096)
          [4096, 2 * (length content div 3), length content div 3, length content - 8192]"
    using assms(2) by simp
qed

theorem compute_video_hash_windows_witness:
  "compute_video_hash [''/v/f.mkv'' \<mapsto> replicate 12290 0] ''/v/f.mkv''
     = Inr (md5_hexdigest (replicate 4096 0) @ '';'' @ md5_hexdigest (replicate 4096 0) @ '';''
            @ md5_hexdigest (replicate 4096 0) @ '';'' @ md5_hexdigest (replicate 4096 0))"
proof -
  have f: "[''/v/f.mkv'' \<mapsto> replicate 12290 (0::byte)] ''/v/f.mkv''
             = Some (replicate 12290 0)"
    by simp
  have l: "12288 \<le> length (replicate 12290 (0::byte))"
    by simp
  show ?thesis
    using compute_video_hash_windows
            [where files = "[''/v/f.mkv'' \<mapsto> replicate 12290 0]"
               and videofile = "''/v/f.mkv''" and content = "replicate 12290 0", OF f l]
    by simp
qed

text \<open>
  C1 as the specification states it fails at \<open>T = 12290\<close>: the code seeks to
  \<open>12290 div 3 * 2 = 8192\<close>, the specification's \<open>floor(2T/3)\<close> is \<open>8193\<close>. On the
  file of 12290 zero bytes with a single 1 at offset 8192 the window that is hashed
  starts with the 1; the window at 8193 is all zero.
\<close>

theorem seek_positions_counterexample:
  "seek_positions 12290 \<noteq> spec_seek_positions 12290
   \<and> seek_positions 12290 = [4096, 8192, 4096, 4098]
   \<and> spec_seek_positions 12290 = [4096, 8193, 4096, 4098]
   \<and> length (replicate 8192 (0::byte) @ [1] @ replicate 4097 0) = 12290
   \<and> fp_read (replicate 8192 0 @ [1] @ replicate 4097 0) (seek_positions 12290 ! 1) 4096
       = 1 # replicate 4095 0
   \<and> fp_read (replicate 8192 0 @ [1] @ replicate 4097 0) (spec_seek_positions 12290 ! 1) 4096
       = replicate 4096 0"
  by (simp add: seek_positions_def spec_seek_positions_def fp_read_def)

section \<open>A worked call\<close>

lemma abspath_example: "abspath ''/videos'' ''movie.mkv'' = ''/videos/movie.mkv''"
  by code_simp

lemma path_split_example: "path_split ''/videos/movie.mkv'' = (''/videos'', ''movie.mkv'')"
  by code_simp

lemma splitext_example: "splitext ''movie.mkv'' = (''movie'', ''.mkv'')"
  by code_simp

lemma gen_subname_example:
  "gen_subname ''/videos/movie.mkv'' ''Eng'' ''srt'' = ''/videos/movie.Eng.srt''"
  "gen_subname ''/videos/movie.mkv'' ''Eng'' ''ass'' = ''/videos/movie.Eng.ass''"
  by code_simp+

lemma str_lower_example: "str_lower ''SRT'' = ''srt''" "str_lower ''ass'' = ''ass''"
  by code_simp+

lemma compute_video_hash_example:
  "compute_video_hash [''/videos/movie.mkv'' \<mapsto> replicate 20000 0] ''/videos/movie.mkv''
     = Inr (str_join '';''
              (map (\<lambda>pos. md5_hexdigest (fp_read (replicate 20000 0) pos 4096))
                   (seek_positions 20000)))"
  using compute_video_hash_large
          [where files = "[''/videos/movie.mkv'' \<mapsto> replicate 20000 0]"
             and videofile = "''/videos/movie.mkv''" and content = "replicate 20000 0"]
  by simp

section \<open>The requests\<close>

lemma dict_set_keys: "fst ` set (dict_set r k v) = insert k (fst ` set r)"
  by (induction r k v rule: dict_set.induct) auto

lemma dict_set_distinct: "distinct (map fst r) \<Longrightarrow> distinct (map fst (dict_set r k v))"
proof (induction r k v rule: dict_set.induct)
  case (1 k v)
  show ?case by simp
next
  case (2 k' v' kvs k v)
  then show ?case
    by (cases "k' = k") (simp_all add: dict_set_keys)
qed

lemma query_loop_keys:
  "query_loop post pl ls result sent = (Inr result', sent')
     \<Longrightarrow> fst ` set result' \<subseteq> fst ` set result \<union> set ls
         \<and> (distinct (map fst result) \<longrightarrow> distinct (map fst result'))"
proof (induction ls arbitrary: pl result sent)
  case Nil
  then show ?case by simp
next
  case (Cons l ls)
  show ?case
  proof (cases "post sent (pl\<lparr>lang := l\<rparr>)")
    case (Inl e)
    with Cons.prems show ?thesis by (simp add: Let_def)
  next
    case (Inr res)
    with Cons.prems
    have "query_loop post (pl\<lparr>lang := l\<rparr>) ls (dict_set result l res)
            (sent @ [pl\<lparr>lang := l\<rparr>]) = (Inr result', sent')"
      by (simp add: Let_def)
    from Cons.IH [OF this]
    have keys: "fst ` set result' \<subseteq> fst ` set (dict_set result l res) \<union> set ls"
      and dist: "distinct (map fst (dict_set result l res)) \<longrightarrow> distinct (map fst result')"
      by simp_all
    have "fst ` set result' \<subseteq> fst ` set result \<union> set (l # ls)"
      using keys unfolding dict_set_keys by auto
    moreover have "distinct (map fst result) \<longrightarrow> distinct (map fst result')"
      using dist by (simp add: dict_set_distinct)
    ultimately show ?thesis by blast
  qed
qed

lemma query_loop_first_failure:
  assumes "i < length ls"
      and "post (sent @ map (\<lambda>l. pl\<lparr>lang := l\<rparr>) (take i ls)) (pl\<lparr>lang := ls ! i\<rparr>) = Inl e"
      and "\<forall>j<i. \<exists>res. post (sent @ map (\<lambda>l. pl\<lparr>lang := l\<rparr>) (take j ls))
                            (pl\<lparr>lang := ls ! j\<rparr>) = Inr res"
  shows "query_loop post pl ls result sent
           = (Inl (SearchingSubinfoError e),
              sent @ map (\<lambda>l. pl\<lparr>lang := l\<rparr>) (take (Suc i) ls))"
  using assms
proof (induction ls arbitrary: i pl result sent)
  case Nil
  then show ?case by simp
next
  case (Cons l ls)
  show ?case
  proof (cases i)
    case 0
    with Cons.prems show ?thesis by (simp add: Let_def)
  next
    case (Suc k)
    from Cons.prems(3) Suc
    obtain res where res: "post sent (pl\<lparr>lang := l\<rparr>) = Inr res"
      by fastforce
    let ?pl = "pl\<lparr>lang := l\<rparr>"
    have k: "k < length ls"
      using Cons.prems(1) Suc by simp
    have fail: "post ((sent @ [?pl]) @ map (\<lambda>l. ?pl\<lparr>lang := l\<rparr>) (take k ls))
                  (?pl\<lparr>lang := ls ! k\<rparr>) = Inl e"
      using Cons.prems(2) Suc by simp
    have before: "\<forall>j<k. \<exists>res. post ((sent @ [?pl]) @ map (\<lambda>l. ?pl\<lparr>lang := l\<rparr>) (take j ls))
                                  (?pl\<lparr>lang := ls ! j\<rparr>) = Inr res"
    proof (intro allI impI)
      fix j assume "j < k"
      then have "Suc j < i" using Suc by simp
      with Cons.prems(3) show "\<exists>res. post ((sent @ [?pl]) @ map (\<lambda>l. ?pl\<lparr>lang := l\<rparr>) (take j ls))
                                  (?pl\<lparr>lang := ls ! j\<rparr>) = Inr res"
        by fastforce
    qed
    have "query_loop post ?pl ls (dict_set result l res) (sent @ [?pl])
            = (Inl (SearchingSubinfoError e),
               (sent @ [?pl]) @ map (\<lambda>l. ?pl\<lparr>lang := l\<rparr>) (take (Suc k) ls))"
      by (rule Cons.IH [OF k fail before])
    then show ?thesis
      using res Suc by (simp add: Let_def)
  qed
qed

text \<open>
  C9: when the languages and formats are supported and the file has a hash, and the
  request for some language is the first to fail (request or decoding, with the text
  \<open>e\<close> of the exception), \<open>search_subs\<close> raises \<open>SearchingSubinfoError\<close> carrying
  \<open>e\<close>. The call returns no descriptor, also none for the languages answered before,
  and sends no request after the failed one.
\<close>

theorem request_failure_aborts_search:
  assumes "set (languages_arg languages0) \<subseteq> set SUPPORT_LANGUAGES"
      and "set (exts_arg exts0) \<subseteq> set SUPPORT_EXTS"
      and "compute_video_hash files (abspath cwd videofile0) = Inr fh"
      and "pl = \<lparr>filehash = fh, pathinfo = snd (path_split (abspath cwd videofile0)),
                 format = ''json'', lang = []\<rparr>"
      and "i < length (languages_arg languages0)"
      and "post (map (\<lambda>l. pl\<lparr>lang := l\<rparr>) (take i (languages_arg languages0)))
             (pl\<lparr>lang := languages_arg languages0 ! i\<rparr>) = Inl e"
      and "\<forall>j<i. \<exists>res. post (map (\<lambda>l. pl\<lparr>lang := l\<rparr>) (take j (languages_arg languages0)))
                            (pl\<lparr>lang := languages_arg languages0 ! j\<rparr>) = Inr res"
  shows "search_subs cwd files post videofile0 languages0 exts0
           = (Inl (SearchingSubinfoError e),
              map (\<lambda>l. pl\<lparr>lang := l\<rparr>) (take (Suc i) (languages_arg languages0)))"
proof -
  have "query_loop post pl (languages_arg languages0) [] []
          = (Inl (SearchingSubinfoError e),
             [] @ map (\<lambda>l. pl\<lparr>lang := l\<rparr>) (take (Suc i) (languages_arg languages0)))"
    by (rule query_loop_first_failure) (use assms(5-7) in simp_all)
  then show ?thesis
    using assms(1-4)
    by (simp add: search_subs_def Let_def check_languages_ok check_exts_ok)
qed

theorem request_failure_aborts_search_witness:
  "fst (search_subs ''/videos'' [''/videos/movie.mkv'' \<mapsto> replicate 20000 0]
          (\<lambda>sent pl. if lang pl = ''Eng'' then Inl ''timed out'' else Inr [])
          ''movie.mkv'' (ArgList [''Chn'', ''Eng'']) ArgNone)
     = Inl (SearchingSubinfoError ''timed out'')
   \<and> map lang
        (snd (search_subs ''/videos'' [''/videos/movie.mkv'' \<mapsto> replicate 20000 0]
                (\<lambda>sent pl. if lang pl = ''Eng'' then Inl ''timed out'' else Inr [])
                ''movie.mkv'' (ArgList [''Chn'', ''Eng'']) ArgNone))
       = [''Chn'', ''Eng'']"
proof -
  let ?post = "\<lambda>(sent :: payload list) pl.
                 if lang pl = ''Eng'' then Inl ''timed out'' else (Inr [] :: string + subinfo list)"
  let ?fh = "str_join '';''
               (map (\<lambda>pos. md5_hexdigest (fp_read (replicate 20000 0) pos 4096))
                    (seek_positions 20000))"
  let ?pl = "\<lparr>filehash = ?fh, pathinfo = snd (path_split (abspath ''/videos'' ''movie.mkv'')),
              format = ''json'', lang = []\<rparr>"
  have h1: "set (languages_arg (ArgList [''Chn'', ''Eng''])) \<subseteq> set SUPPORT_LANGUAGES"
    by (simp add: languages_arg_def SUPPORT_LANGUAGES_def)
  have h2: "set (exts_arg ArgNone) \<subseteq> set SUPPORT_EXTS"
    by (simp add: exts_arg_def)
  have h3: "compute_video_hash [''/videos/movie.mkv'' \<mapsto> replicate 20000 0]
              (abspath ''/videos'' ''movie.mkv'') = Inr ?fh"
    unfolding abspath_example by (rule compute_video_hash_example)
  have h5: "1 < length (languages_arg (ArgList [''Chn'', ''Eng'']))"
    by (simp add: languages_arg_def)
  have h6: "?post (map (\<lambda>l. ?pl\<lparr>lang := l\<rparr>) (take 1 (languages_arg (ArgList [''Chn'', ''Eng'']))))
              (?pl\<lparr>lang := languages_arg (ArgList [''Chn'', ''Eng'']) ! 1\<rparr>) = Inl ''timed out''"
    by (simp add: languages_arg_def)
  have h7: "\<forall>j<1. \<exists>res. ?post (map (\<lambda>l. ?pl\<lparr>lang := l\<rparr>)
                                  (take j (languages_arg (ArgList [''Chn'', ''Eng'']))))
                            (?pl\<lparr>lang := languages_arg (ArgList [''Chn'', ''Eng'']) ! j\<rparr>) = Inr res"
    by (simp add: languages_arg_def)
  have "search_subs ''/videos'' [''/videos/movie.mkv'' \<mapsto> replicate 20000 0] ?post
          ''movie.mkv'' (ArgList [''Chn'', ''Eng'']) ArgNone
        = (Inl (SearchingSubinfoError ''timed out''),
           map (\<lambda>l. ?pl\<lparr>lang := l\<rparr>) (take (Suc 1) (languages_arg (ArgList [''Chn'', ''Eng'']))))"
    by (rule request_failure_aborts_search [OF h1 h2 h3 refl h5 h6 h7])
  then show ?thesis
    by (simp add: languages_arg_def)
qed

section \<open>Building the descriptors\<close>

lemma files_loop_props:
  "\<exists>new. files_loop vf exts l items (acc, S) = (acc @ new, S \<union> ext ` set new)
     \<and> distinct (map ext new)
     \<and> (\<forall>d \<in> set new.
           language d = l \<and> ext d \<in> set exts \<and> ext d \<notin> S
           \<and> subname d = gen_subname vf l (ext d)
           \<and> (\<exists>item. find (\<lambda>it. str_lower (Ext it) = ext d) items = Some item
                  \<and> link d = Link item))"
proof (induction items arbitrary: acc S)
  case Nil
  show ?case by simp
next
  case (Cons item items)
  let ?e = "str_lower (Ext item)"
  show ?case
  proof (cases "?e \<in> set exts \<and> ?e \<notin> S")
    case True
    let ?d = "\<lparr>link = Link item, language = l, subname = gen_subname vf l ?e, ext = ?e\<rparr>"
    from Cons.IH [of "acc @ [?d]" "insert ?e S"]
    obtain new where
      run: "files_loop vf exts l items (acc @ [?d], insert ?e S)
              = ((acc @ [?d]) @ new, insert ?e S \<union> ext ` set new)"
      and dist: "distinct (map ext new)"
      and each: "\<forall>d \<in> set new.
           language d = l \<and> ext d \<in> set exts \<and> ext d \<notin> insert ?e S
           \<and> subname d = gen_subname vf l (ext d)
           \<and> (\<exists>item. find (\<lambda>it. str_lower (Ext it) = ext d) items = Some item
                  \<and> link d = Link item)"
      by blast
    have "files_loop vf exts l (item # items) (acc, S)
            = (acc @ (?d # new), S \<union> ext ` set (?d # new))"
      using True run by (simp add: Let_def)
    moreover have "distinct (map ext (?d # new))"
      using dist each by auto
    moreover have "\<forall>d \<in> set (?d # new).
           language d = l \<and> ext d \<in> set exts \<and> ext d \<notin> S
           \<and> subname d = gen_subname vf l (ext d)
           \<and> (\<exists>it'. find (\<lambda>it. str_lower (Ext it) = ext d) (item # items) = Some it'
                  \<and> link d = Link it')"
      using True each by auto
    ultimately show ?thesis by blast
  next
    case False
    from Cons.IH [of acc S]
    obtain new where
      run: "files_loop vf exts l items (acc, S) = (acc @ new, S \<union> ext ` set new)"
      and dist: "distinct (map ext new)"
      and each: "\<forall>d \<in> set new.
           language d = l \<and> ext d \<in> set exts \<and> ext d \<notin> S
           \<and> subname d = gen_subname vf l (ext d)
           \<and> (\<exists>item. find (\<lambda>it. str_lower (Ext it) = ext d) items = Some item
                  \<and> link d = Link item)"
      by blast
    have "files_loop vf exts l (item # items) (acc, S) = (acc @ new, S \<union> ext ` set new)"
      using False run by (auto simp: Let_def)
    moreover have "\<forall>d \<in> set new.
           language d = l \<and> ext d \<in> set exts \<and> ext d \<notin> S
           \<and> subname d = gen_subname vf l (ext d)
           \<and> (\<exists>it'. find (\<lambda>it. str_lower (Ext it) = ext d) (item # items) = Some it'
                  \<and> link d = Link it')"
      using False each by auto
    ultimately show ?thesis using dist by blast
  qed
qed

lemma files_loop_append:
  "files_loop vf exts l (xs @ ys) acc = files_loop vf exts l ys (files_loop vf exts l xs acc)"
proof (induction xs arbitrary: acc)
  case Nil
  show ?case by (cases acc) simp
next
  case (Cons x xs)
  show ?case by (cases acc) (simp add: Let_def Cons.IH)
qed

lemma subinfo_loop_files:
  "subinfo_loop vf exts l sis acc = files_loop vf exts l (concat (map Files sis)) acc"
proof (induction sis arbitrary: acc)
  case Nil
  show ?case by (cases acc) simp
next
  case (Cons si sis)
  show ?case by (simp add: Cons.IH files_loop_append)
qed

lemma result_loop_props:
  "\<exists>new. result_loop vf exts result acc = acc @ new
     \<and> (distinct (map fst result) \<longrightarrow> distinct (map (\<lambda>d. (language d, ext d)) new))
     \<and> (\<forall>d \<in> set new.
           ext d \<in> set exts
           \<and> subname d = gen_subname vf (language d) (ext d)
           \<and> (\<exists>subinfolist item.
                  (language d, subinfolist) \<in> set result
                  \<and> find (\<lambda>it. str_lower (Ext it) = ext d) (concat (map Files subinfolist))
                      = Some item
                  \<and> link d = Link item))"
proof (induction result arbitrary: acc)
  case Nil
  show ?case by simp
next
  case (Cons kv result)
  obtain l sl where kv: "kv = (l, sl)" by (cases kv)
  from files_loop_props [of vf exts l "concat (map Files sl)" acc "{}"]
  obtain new1 where
    run1: "files_loop vf exts l (concat (map Files sl)) (acc, {}) = (acc @ new1, {} \<union> ext ` set new1)"
    and dist1: "distinct (map ext new1)"
    and each1: "\<forall>d \<in> set new1.
           language d = l \<and> ext d \<in> set exts \<and> ext d \<notin> {}
           \<and> subname d = gen_subname vf l (ext d)
           \<and> (\<exists>item. find (\<lambda>it. str_lower (Ext it) = ext d) (concat (map Files sl)) = Some item
                  \<and> link d = Link item)"
    by blast
  from Cons.IH [of "acc @ new1"]
  obtain new2 where
    run2: "result_loop vf exts result (acc @ new1) = (acc @ new1) @ new2"
    and dist2: "distinct (map fst result) \<longrightarrow> distinct (map (\<lambda>d. (language d, ext d)) new2)"
    and each2: "\<forall>d \<in> set new2.
           ext d \<in> set exts
           \<and> subname d = gen_subname vf (language d) (ext d)
           \<and> (\<exists>subinfolist item.
                  (language d, subinfolist) \<in> set result
                  \<and> find (\<lambda>it. str_lower (Ext it) = ext d) (concat (map Files subinfolist))
                      = Some item
                  \<and> link d = Link item)"
    by blast
  have run: "result_loop vf exts (kv # result) acc = acc @ (new1 @ new2)"
    using run1 run2 by (simp add: kv subinfo_loop_files)
  have lang1: "\<forall>d \<in> set new1. language d = l"
    using each1 by blast
  have lang2: "\<forall>d \<in> set new2. language d \<in> fst ` set result"
    using each2 by force
  have dist: "distinct (map fst (kv # result))
                \<longrightarrow> distinct (map (\<lambda>d. (language d, ext d)) (new1 @ new2))"
  proof
    assume d: "distinct (map fst (kv # result))"
    then have "l \<notin> fst ` set result" and "distinct (map fst result)"
      by (simp_all add: kv)
    then have a: "distinct (map (\<lambda>d. (language d, ext d)) new2)"
      and b: "\<forall>d \<in> set new2. language d \<noteq> l"
      using dist2 lang2 by auto
    have c: "distinct (map (\<lambda>d. (language d, ext d)) new1)"
      using dist1 lang1 by (simp add: distinct_map inj_on_def)
    show "distinct (map (\<lambda>d. (language d, ext d)) (new1 @ new2))"
      using a b c lang1 by auto
  qed
  have each: "\<forall>d \<in> set (new1 @ new2).
           ext d \<in> set exts
           \<and> subname d = gen_subname vf (language d) (ext d)
           \<and> (\<exists>subinfolist item.
                  (language d, subinfolist) \<in> set (kv # result)
                  \<and> find (\<lambda>it. str_lower (Ext it) = ext d) (concat (map Files subinfolist))
                      = Some item
                  \<and> link d = Link item)"
  proof
    fix d assume "d \<in> set (new1 @ new2)"
    then consider "d \<in> set new1" | "d \<in> set new2" by auto
    then show "ext d \<in> set exts
           \<and> subname d = gen_subname vf (language d) (ext d)
           \<and> (\<exists>subinfolist item.
                  (language d, subinfolist) \<in> set (kv # result)
                  \<and> find (\<lambda>it. str_lower (Ext it) = ext d) (concat (map Files subinfolist))
                      = Some item
                  \<and> link d = Link item)"
    proof cases
      case 1
      with each1 show ?thesis by (auto simp: kv)
    next
      case 2
      with each2 show ?thesis by fastforce
    qed
  qed
  from run dist each show ?case by blast
qed

text \<open>
  C5: for a dictionary \<open>result\<close> from languages to decoded responses (its keys are
  distinct, as in every Python dictionary), the loops that build \<open>subinfos\<close> emit at
  most one descriptor for each pair of language and format. Every descriptor has a
  format among the requested ones, and its link is the link of the first file entry,
  in the order of the response of its language, whose lower-cased extension is that
  format. File entries with other extensions give no descriptor.
\<close>

theorem one_descriptor_per_language_and_format:
  assumes "distinct (map fst result)"
  shows "distinct (map (\<lambda>d. (language d, ext d)) (result_loop videofile exts result []))
         \<and> (\<forall>d \<in> set (result_loop videofile exts result []).
               ext d \<in> set exts
               \<and> (\<exists>subinfolist item.
                      (language d, subinfolist) \<in> set result
                      \<and> find (\<lambda>it. str_lower (Ext it) = ext d)
                               (concat (map Files subinfolist)) = Some item
                      \<and> link d = Link item))"
  using assms result_loop_props [of videofile exts result "[]"] by auto

theorem one_descriptor_per_language_and_format_witness:
  "distinct (map fst
      [(''Eng'', [\<lparr>Desc = ''x'', Delay = 0,
                   Files = [\<lparr>Ext = ''SRT'', Link = ''http://x/1''\<rparr>,
                            \<lparr>Ext = ''srt'', Link = ''http://x/2''\<rparr>,
                            \<lparr>Ext = ''ass'', Link = ''http://x/3''\<rparr>]\<rparr>])])
   \<and> distinct (map (\<lambda>d. (language d, ext d))
        (result_loop ''/videos/movie.mkv'' [''srt'']
           [(''Eng'', [\<lparr>Desc = ''x'', Delay = 0,
                        Files = [\<lparr>Ext = ''SRT'', Link = ''http://x/1''\<rparr>,
                                 \<lparr>Ext = ''srt'', Link = ''http://x/2''\<rparr>,
                                 \<lparr>Ext = ''ass'', Link = ''http://x/3''\<rparr>]\<rparr>])] []))
   \<and> result_loop ''/videos/movie.mkv'' [''srt'']
        [(''Eng'', [\<lparr>Desc = ''x'', Delay = 0,
                     Files = [\<lparr>Ext = ''SRT'', Link = ''http://x/1''\<rparr>,
                              \<lparr>Ext = ''srt'', Link = ''http://x/2''\<rparr>,
                              \<lparr>Ext = ''ass'', Link = ''http://x/3''\<rparr>]\<rparr>])] []
       = [\<lparr>link = ''http://x/1'', language = ''Eng'',
           subname = ''/videos/movie.Eng.srt'', ext = ''srt''\<rparr>]"
proof -
  let ?result = "[(''Eng'', [\<lparr>Desc = ''x'', Delay = 0,
                   Files = [\<lparr>Ext = ''SRT'', Link = ''http://x/1''\<rparr>,
                            \<lparr>Ext = ''srt'', Link = ''http://x/2''\<rparr>,
                            \<lparr>Ext = ''ass'', Link = ''http://x/3''\<rparr>]\<rparr>])]"
  have h: "distinct (map fst ?result)"
    by simp
  have low: "str_lower ''srt'' = ''srt''"
    by code_simp
  have run: "result_loop ''/videos/movie.mkv'' [''srt''] ?result []
       = [\<lparr>link = ''http://x/1'', language = ''Eng'',
           subname = ''/videos/movie.Eng.srt'', ext = ''srt''\<rparr>]"
    by (simp add: Let_def str_lower_example low gen_subname_example)
  show ?thesis
    using h run
      one_descriptor_per_language_and_format
        [OF h, of "''/videos/movie.mkv''" "[''srt'']"]
    by blast
qed

lemma search_subs_example:
  "search_subs ''/videos'' [''/videos/movie.mkv'' \<mapsto> replicate 20000 0]
     (\<lambda>sent pl. Inr [\<lparr>Desc = ''x'', Delay = 0,
                        Files = [\<lparr>Ext = ''SRT'', Link = ''http://x/1''\<rparr>,
                                 \<lparr>Ext = ''ass'', Link = ''http://x/2''\<rparr>]\<rparr>])
     ''movie.mkv'' (ArgStr ''Eng'') ArgNone
   = (Inr [\<lparr>link = ''http://x/1'', language = ''Eng'',
            subname = ''/videos/movie.Eng.srt'', ext = ''srt''\<rparr>,
           \<lparr>link = ''http://x/2'', language = ''Eng'',
            subname = ''/videos/movie.Eng.ass'', ext = ''ass''\<rparr>],
      [\<lparr>filehash = str_join '';''
                      (map (\<lambda>pos. md5_hexdigest (fp_read (replicate 20000 0) pos 4096))
                           (seek_positions 20000)),
        pathinfo = ''movie.mkv'', format = ''json'', lang = ''Eng''\<rparr>])"
  by (simp add: search_subs_def languages_arg_def exts_arg_def SUPPORT_LANGUAGES_def
        SUPPORT_EXTS_def abspath_example compute_video_hash_example path_split_example
        Let_def str_lower_example gen_subname_example)

lemma search_subs_InrD:
  assumes "search_subs cwd files post videofile0 languages0 exts0 = (Inr subinfos, sent)"
  shows "\<exists>fh result.
           set (languages_arg languages0) \<subseteq> set SUPPORT_LANGUAGES
           \<and> set (exts_arg exts0) \<subseteq> set SUPPORT_EXTS
           \<and> compute_video_hash files (abspath cwd videofile0) = Inr fh
           \<and> query_loop post
                \<lparr>filehash = fh, pathinfo = snd (path_split (abspath cwd videofile0)),
                 format = ''json'', lang = []\<rparr>
                (languages_arg languages0) [] [] = (Inr result, sent)
           \<and> subinfos = result_loop (abspath cwd videofile0) (exts_arg exts0) result []"
  using assms
  by (auto simp: search_subs_def Let_def
           split: sum.splits prod.splits dest: check_languages_Inr check_exts_Inr)

section \<open>The descriptors that are returned\<close>

text \<open>
  C8: when \<open>search_subs\<close> returns a list of descriptors, every descriptor in it has a
  language in \<open>SUPPORT_LANGUAGES\<close> and a format in \<open>SUPPORT_EXTS\<close>.
\<close>

theorem returned_descriptors_are_supported:
  assumes "search_subs cwd files post videofile0 languages0 exts0 = (Inr subinfos, sent)"
      and "d \<in> set subinfos"
  shows "language d \<in> set SUPPORT_LANGUAGES \<and> ext d \<in> set SUPPORT_EXTS"
proof -
  from search_subs_InrD [OF assms(1)]
  obtain fh result where
    langs: "set (languages_arg languages0) \<subseteq> set SUPPORT_LANGUAGES"
    and exts: "set (exts_arg exts0) \<subseteq> set SUPPORT_EXTS"
    and query: "query_loop post
                \<lparr>filehash = fh, pathinfo = snd (path_split (abspath cwd videofile0)),
                 format = ''json'', lang = []\<rparr>
                (languages_arg languages0) [] [] = (Inr result, sent)"
    and subinfos: "subinfos = result_loop (abspath cwd videofile0) (exts_arg exts0) result []"
    by blast
  from query_loop_keys [OF query]
  have keys: "fst ` set result \<subseteq> set (languages_arg languages0)"
    by simp
  from result_loop_props [of "abspath cwd videofile0" "exts_arg exts0" result "[]"]
       assms(2) subinfos
  obtain subinfolist where
    "ext d \<in> set (exts_arg exts0)" and "(language d, subinfolist) \<in> set result"
    by auto
  then have "ext d \<in> set (exts_arg exts0)" and "language d \<in> fst ` set result"
    by force+
  with keys langs exts show ?thesis by blast
qed

theorem returned_descriptors_are_supported_witness:
  "language \<lparr>link = ''http://x/1'', language = ''Eng'',
             subname = ''/videos/movie.Eng.srt'', ext = ''srt''\<rparr> \<in> set SUPPORT_LANGUAGES
   \<and> ext \<lparr>link = ''http://x/1'', language = ''Eng'',
           subname = ''/videos/movie.Eng.srt'', ext = ''srt''\<rparr> \<in> set SUPPORT_EXTS"
  by (rule returned_descriptors_are_supported [OF search_subs_example]) simp

section \<open>The name of the subtitle file\<close>

lemma rfind_split_point:
  "nat (rfind c p + 1) = length p - length (takeWhile (\<lambda>x. x \<noteq> c) (rev p))"
proof (cases "c \<in> set p")
  case True
  then have "takeWhile (\<lambda>x. x \<noteq> c) (rev p) \<noteq> rev p"
    by (auto simp: takeWhile_eq_all_conv)
  moreover have "length (takeWhile (\<lambda>x. x \<noteq> c) (rev p)) \<le> length (rev p)"
    by (rule length_takeWhile_le)
  ultimately have "length (takeWhile (\<lambda>x. x \<noteq> c) (rev p)) < length p"
    by (metis length_rev le_neq_implies_less takeWhile_eq_take take_all_iff order_refl)
  with True show ?thesis
    by (simp add: rfind_def)
next
  case False
  have tw: "takeWhile (\<lambda>x. x \<noteq> c) (rev p) = rev p"
    by (rule takeWhile_eq_all_conv [THEN iffD2]) (use False in auto)
  show ?thesis
    unfolding rfind_def tw using False by simp
qed

lemma split_at_last_slash:
  assumes "slash \<notin> set s" and "h = [] \<or> last h = slash"
  shows "nat (rfind slash (h @ s) + 1) = length h"
proof -
  have "takeWhile (\<lambda>x. x \<noteq> slash) (rev h) = []"
  proof (cases "h = []")
    case True
    then show ?thesis by simp
  next
    case False
    then obtain b c where bc: "h = b @ [c]"
      by (meson rev_exhaust)
    with assms(2) have "c = slash" by simp
    with bc show ?thesis by simp
  qed
  moreover have "takeWhile (\<lambda>x. x \<noteq> slash) (rev s @ rev h)
                   = rev s @ takeWhile (\<lambda>x. x \<noteq> slash) (rev h)"
    by (rule takeWhile_append2) (use assms(1) in auto)
  ultimately have "takeWhile (\<lambda>x. x \<noteq> slash) (rev s @ rev h) = rev s"
    by simp
  then show ?thesis
    by (simp add: rfind_split_point)
qed

lemma path_split_at:
  assumes "slash \<notin> set s" and "h = [] \<or> last h = slash"
  shows "path_split (h @ s)
           = (if h \<noteq> [] \<and> h \<noteq> replicate (length h) slash then rstrip slash h else h, s)"
  by (simp add: path_split_def split_at_last_slash [OF assms] Let_def)

lemma path_split_decomp:
  obtains h s where "p = h @ s" and "slash \<notin> set s" and "h = [] \<or> last h = slash"
proof
  let ?h = "rev (dropWhile (\<lambda>x. x \<noteq> slash) (rev p))"
  let ?s = "rev (takeWhile (\<lambda>x. x \<noteq> slash) (rev p))"
  have "rev p = takeWhile (\<lambda>x. x \<noteq> slash) (rev p) @ dropWhile (\<lambda>x. x \<noteq> slash) (rev p)"
    by simp
  then have "rev (rev p) = ?h @ ?s"
    by (metis rev_append)
  then show "p = ?h @ ?s" by simp
  show "slash \<notin> set ?s"
    by (auto dest: set_takeWhileD)
  show "?h = [] \<or> last ?h = slash"
  proof (cases "dropWhile (\<lambda>x. x \<noteq> slash) (rev p) = []")
    case True
    then show ?thesis by simp
  next
    case False
    then have "\<not> (hd (dropWhile (\<lambda>x. x \<noteq> slash) (rev p)) \<noteq> slash)"
      by (rule hd_dropWhile)
    with False show ?thesis
      by (simp add: last_rev)
  qed
qed

lemma not_all_slash: "h \<noteq> replicate (length h) slash \<longleftrightarrow> (\<exists>x \<in> set h. x \<noteq> slash)"
proof
  assume "h \<noteq> replicate (length h) slash"
  then show "\<exists>x \<in> set h. x \<noteq> slash"
    by (metis replicate_length_same)
next
  assume "\<exists>x \<in> set h. x \<noteq> slash"
  then show "h \<noteq> replicate (length h) slash"
    by (metis in_set_replicate)
qed

lemma rstrip_shape:
  assumes "\<exists>x \<in> set h. x \<noteq> slash"
  shows "rstrip slash h \<noteq> [] \<and> last (rstrip slash h) \<noteq> slash"
proof -
  have ne: "dropWhile (\<lambda>x. x = slash) (rev h) \<noteq> []"
    using assms by (auto simp: dropWhile_eq_Nil_conv)
  then have "\<not> (hd (dropWhile (\<lambda>x. x = slash) (rev h)) = slash)"
    by (rule hd_dropWhile)
  with ne show ?thesis
    by (simp add: rstrip_def last_rev)
qed

lemma path_split_shape:
  assumes "path_split p = (r, b)"
  shows "slash \<notin> set b \<and> (r = replicate (length r) slash \<or> (r \<noteq> [] \<and> last r \<noteq> slash))"
proof -
  obtain h s where p: "p = h @ s" and s: "slash \<notin> set s" and h: "h = [] \<or> last h = slash"
    by (rule path_split_decomp)
  from assms have b: "b = s"
    and r: "r = (if h \<noteq> [] \<and> h \<noteq> replicate (length h) slash then rstrip slash h else h)"
    unfolding p path_split_at [OF s h] by simp_all
  show ?thesis
  proof (cases "h \<noteq> [] \<and> h \<noteq> replicate (length h) slash")
    case True
    then have "\<exists>x \<in> set h. x \<noteq> slash"
      by (simp add: not_all_slash)
    from rstrip_shape [OF this] True r b s show ?thesis
      by simp
  next
    case False
    then have "h = replicate (length h) slash"
      by auto
    with False r b s show ?thesis
      by auto
  qed
qed

lemma path_split_join:
  assumes "slash \<notin> set s" and "s \<noteq> []"
      and "r = replicate (length r) slash \<or> (r \<noteq> [] \<and> last r \<noteq> slash)"
  shows "path_split (path_join r s) = (r, s)"
proof -
  from assms(1,2) have nostart: "\<not> startswith s ''/''"
    by (cases s) (auto simp: startswith_def)
  show ?thesis
  proof (cases "r = []")
    case True
    then have "path_join r s = [] @ s"
      using nostart by (simp add: path_join_def)
    then show ?thesis
      using path_split_at [of s "[]"] assms(1) True by simp
  next
    case False
    then obtain b c where bc: "r = b @ [c]"
      by (meson rev_exhaust)
    show ?thesis
    proof (cases "c = slash")
      case True
      with assms(3) bc have all: "r = replicate (length r) slash"
        by auto
      have "endswith r ''/''"
        using True bc by (simp add: endswith_def)
      then have "path_join r s = r @ s"
        using nostart by (simp add: path_join_def)
      moreover have "last r = slash"
        using True bc by simp
      ultimately show ?thesis
        using path_split_at [of s r] assms(1) all by simp
    next
      case notslash: False
      have "\<not> endswith r ''/''"
        using notslash bc by (simp add: endswith_def)
      then have j: "path_join r s = (r @ ''/'') @ s"
        using nostart bc by (simp add: path_join_def)
      have "\<exists>x \<in> set (r @ ''/''). x \<noteq> slash"
        using notslash bc by auto
      then have notall: "r @ ''/'' \<noteq> replicate (length (r @ ''/'')) slash"
        by (simp only: not_all_slash)
      have strip: "rstrip slash (r @ ''/'') = r"
        using notslash bc by (simp add: rstrip_def)
      have "path_split ((r @ ''/'') @ s)
              = (if r @ ''/'' \<noteq> [] \<and> r @ ''/'' \<noteq> replicate (length (r @ ''/'')) slash
                 then rstrip slash (r @ ''/'') else r @ ''/'', s)"
        by (rule path_split_at) (use assms(1) in simp_all)
      then show ?thesis
        unfolding j using notall strip by simp
    qed
  qed
qed

lemma splitext_name_subset: "set (fst (splitext b)) \<subseteq> set b"
  by (auto simp: splitext_def Let_def dest: in_set_takeD)

lemma gen_subname_beside:
  assumes "path_split videofile = (root, base)"
      and "splitext base = (name, e)"
      and "slash \<notin> set l" and "slash \<notin> set x"
  shows "gen_subname videofile l x = path_join root (name @ ''.'' @ l @ ''.'' @ x)
         \<and> path_split (gen_subname videofile l x) = (root, name @ ''.'' @ l @ ''.'' @ x)"
proof -
  have g: "gen_subname videofile l x = path_join root (name @ ''.'' @ l @ ''.'' @ x)"
    using assms(1,2) by (simp add: gen_subname_def)
  from path_split_shape [OF assms(1)]
  have base: "slash \<notin> set base"
    and root: "root = replicate (length root) slash \<or> (root \<noteq> [] \<and> last root \<noteq> slash)"
    by blast+
  have "set name \<subseteq> set base"
    using splitext_name_subset [of base] assms(2) by simp
  with base assms(3,4) have "slash \<notin> set (name @ ''.'' @ l @ ''.'' @ x)"
    by auto
  moreover have "name @ ''.'' @ l @ ''.'' @ x \<noteq> []"
    by simp
  ultimately have "path_split (path_join root (name @ ''.'' @ l @ ''.'' @ x))
                     = (root, name @ ''.'' @ l @ ''.'' @ x)"
    using root by (rule path_split_join)
  with g show ?thesis by simp
qed

lemma search_subs_descriptor:
  assumes "search_subs cwd files post videofile0 languages0 exts0 = (Inr subinfos, sent)"
      and "d \<in> set subinfos"
  shows "language d \<in> set SUPPORT_LANGUAGES \<and> ext d \<in> set SUPPORT_EXTS
         \<and> subname d = gen_subname (abspath cwd videofile0) (language d) (ext d)"
proof -
  from search_subs_InrD [OF assms(1)]
  obtain fh result where
    langs: "set (languages_arg languages0) \<subseteq> set SUPPORT_LANGUAGES"
    and exts: "set (exts_arg exts0) \<subseteq> set SUPPORT_EXTS"
    and query: "query_loop post
                \<lparr>filehash = fh, pathinfo = snd (path_split (abspath cwd videofile0)),
                 format = ''json'', lang = []\<rparr>
                (languages_arg languages0) [] [] = (Inr result, sent)"
    and subinfos: "subinfos = result_loop (abspath cwd videofile0) (exts_arg exts0) result []"
    by blast
  from query_loop_keys [OF query]
  have keys: "fst ` set result \<subseteq> set (languages_arg languages0)"
    by simp
  from result_loop_props [of "abspath cwd videofile0" "exts_arg exts0" result "[]"]
       assms(2) subinfos
  obtain subinfolist where
    "ext d \<in> set (exts_arg exts0)" and "(language d, subinfolist) \<in> set result"
    and "subname d = gen_subname (abspath cwd videofile0) (language d) (ext d)"
    by auto
  then have "ext d \<in> set (exts_arg exts0)" and "language d \<in> fst ` set result"
    and "subname d = gen_subname (abspath cwd videofile0) (language d) (ext d)"
    by force+
  with keys langs exts show ?thesis by blast
qed

text \<open>
  C2: every descriptor that \<open>search_subs\<close> returns carries a link, a language, a
  format (the key \<open>ext\<close>) and a name for the subtitle file (the key \<open>subname\<close>). With
  the absolute path of the video split into its directory and its base name, and the
  base name into its stem and its extension, the name of the subtitle file is the
  directory joined with \<open>stem.language.format\<close>; splitting it gives back the directory
  of the video and that file name.
\<close>

theorem subname_beside_video:
  assumes "search_subs cwd files post videofile0 languages0 exts0 = (Inr subinfos, sent)"
      and "d \<in> set subinfos"
      and "path_split (abspath cwd videofile0) = (root, base)"
      and "splitext base = (name, e)"
  shows "subname d = path_join root (name @ ''.'' @ language d @ ''.'' @ ext d)
         \<and> path_split (subname d) = (root, name @ ''.'' @ language d @ ''.'' @ ext d)"
proof -
  from search_subs_descriptor [OF assms(1,2)]
  have l: "language d \<in> set SUPPORT_LANGUAGES" and x: "ext d \<in> set SUPPORT_EXTS"
    and s: "subname d = gen_subname (abspath cwd videofile0) (language d) (ext d)"
    by blast+
  from l have "slash \<notin> set (language d)"
    by (auto simp: SUPPORT_LANGUAGES_def)
  moreover from x have "slash \<notin> set (ext d)"
    by (auto simp: SUPPORT_EXTS_def)
  ultimately show ?thesis
    unfolding s by (rule gen_subname_beside [OF assms(3,4)])
qed

theorem subname_beside_video_witness:
  "fst (search_subs ''/videos'' [''/videos/movie.mkv'' \<mapsto> replicate 20000 0]
          (\<lambda>sent pl. Inr [\<lparr>Desc = ''x'', Delay = 0,
                             Files = [\<lparr>Ext = ''SRT'', Link = ''http://x/1''\<rparr>,
                                      \<lparr>Ext = ''ass'', Link = ''http://x/2''\<rparr>]\<rparr>])
          ''movie.mkv'' (ArgStr ''Eng'') ArgNone)
     = Inr [\<lparr>link = ''http://x/1'', language = ''Eng'',
              subname = ''/videos/movie.Eng.srt'', ext = ''srt''\<rparr>,
            \<lparr>link = ''http://x/2'', language = ''Eng'',
              subname = ''/videos/movie.Eng.ass'', ext = ''ass''\<rparr>]
   \<and> ''/videos/movie.Eng.srt''
       = path_join ''/videos'' (''movie'' @ ''.'' @ ''Eng'' @ ''.'' @ ''srt'')
   \<and> path_split ''/videos/movie.Eng.srt''
       = (''/videos'', ''movie'' @ ''.'' @ ''Eng'' @ ''.'' @ ''srt'')"
proof -
  let ?d = "\<lparr>link = ''http://x/1'', language = ''Eng'',
            subname = ''/videos/movie.Eng.srt'', ext = ''srt''\<rparr>"
  let ?d2 = "\<lparr>link = ''http://x/2'', language = ''Eng'',
             subname = ''/videos/movie.Eng.ass'', ext = ''ass''\<rparr>"
  have mem: "?d \<in> set [?d, ?d2]"
    by simp
  have h3: "path_split (abspath ''/videos'' ''movie.mkv'') = (''/videos'', ''movie.mkv'')"
    by (simp add: abspath_example path_split_example)
  have raw: "subname ?d = path_join ''/videos'' (''movie'' @ ''.'' @ language ?d @ ''.'' @ ext ?d)
        \<and> path_split (subname ?d)
            = (''/videos'', ''movie'' @ ''.'' @ language ?d @ ''.'' @ ext ?d)"
    by (rule subname_beside_video [OF search_subs_example mem h3 splitext_example])
  have sel: "subname ?d = ''/videos/movie.Eng.srt''" "language ?d = ''Eng''" "ext ?d = ''srt''"
    by simp_all
  note r = raw [unfolded sel]
  have ex: "fst (search_subs ''/videos'' [''/videos/movie.mkv'' \<mapsto> replicate 20000 0]
          (\<lambda>sent pl. Inr [\<lparr>Desc = ''x'', Delay = 0,
                             Files = [\<lparr>Ext = ''SRT'', Link = ''http://x/1''\<rparr>,
                                      \<lparr>Ext = ''ass'', Link = ''http://x/2''\<rparr>]\<rparr>])
          ''movie.mkv'' (ArgStr ''Eng'') ArgNone) = Inr [?d, ?d2]"
    by (simp only: search_subs_example fst_conv)
  show ?thesis
    by (intro conjI) (rule ex, rule r [THEN conjunct1], rule r [THEN conjunct2])
qed

end
